theory Spec2Isabelle
  imports Complex_Main "HOL-Library.Log_Nat"
begin

section \<open>Python values handled by the proxy\<close>

text \<open>
  The proxy (\<^verbatim>\<open>carelink_client_proxy.py\<close>) keeps the document returned by
  \<^verbatim>\<open>client.getRecentData()\<close> in the module-level variable \<^verbatim>\<open>recentData\<close>.
  That value is whatever \<^verbatim>\<open>json.loads\<close> produced, or \<^verbatim>\<open>None\<close>; it is modelled
  by the datatype below, \<open>JNull\<close> being Python's \<^verbatim>\<open>None\<close>. A \<^verbatim>\<open>dict\<close> is an
  association list in insertion order (its keys are distinct in any value Python can
  build). A \<^verbatim>\<open>float\<close> is the rational number that it denotes, a finite double.
\<close>

datatype json =
    JNull
  | JBool bool
  | JInt int
  | JFloat rat
  | JStr string
  | JArr "json list"
  | JObj "(string \<times> json) list"

datatype py_error = KeyError | TypeError | AttributeError | OverflowError

subsection \<open>Constants of the module\<close>

definition BASEURI :: string where
  "BASEURI = ''carelink''"

definition OPT_NOHISTORY :: string where
  "OPT_NOHISTORY = ''nohistory''"

definition UPDATE_INTERVAL :: int where
  "UPDATE_INTERVAL = 300"

definition RETRY_INTERVAL :: int where
  "RETRY_INTERVAL = 120"

definition VERSION :: string where
  "VERSION = ''0.6''"

definition HTTP_OK :: int where
  "HTTP_OK = 200"

definition HTTP_FORBIDDEN :: int where
  "HTTP_FORBIDDEN = 403"

definition HTTP_NOT_FOUND :: int where
  "HTTP_NOT_FOUND = 404"

subsection \<open>\<^verbatim>\<open>str\<close> of an integer\<close>

fun digits :: "nat \<Rightarrow> string" where
  "digits n =
     (if n < 10 then [char_of (48 + n)]
      else digits (n div 10) @ [char_of (48 + n mod 10)])"

declare digits.simps [simp del]

definition str_int :: "int \<Rightarrow> string" where
  "str_int k = (if k < 0 then CHR ''-'' # digits (nat (- k)) else digits (nat k))"

subsection \<open>\<^verbatim>\<open>dict\<close> operations\<close>

text \<open>
  \<^verbatim>\<open>data.copy()\<close> exists on dicts and lists only; \<^verbatim>\<open>del mydata[key]\<close> with a string
  key raises \<^verbatim>\<open>KeyError\<close> on a dict without the key and \<^verbatim>\<open>TypeError\<close> on a list.
\<close>

fun py_copy :: "json \<Rightarrow> py_error + json" where
  "py_copy (JObj d) = Inr (JObj d)"
| "py_copy (JArr xs) = Inr (JArr xs)"
| "py_copy _ = Inl AttributeError"

fun py_delitem :: "json \<Rightarrow> string \<Rightarrow> py_error + json" where
  "py_delitem (JObj d) k =
     (if k \<in> fst ` set d then Inr (JObj (filter (\<lambda>kv. fst kv \<noteq> k) d)) else Inl KeyError)"
| "py_delitem _ k = Inl TypeError"

fun py_getitem :: "json \<Rightarrow> string \<Rightarrow> py_error + json" where
  "py_getitem (JObj d) k = (case map_of d k of None \<Rightarrow> Inl KeyError | Some v \<Rightarrow> Inr v)"
| "py_getitem _ k = Inl TypeError"

section \<open>The lite view\<close>

text \<open>
  One \<^verbatim>\<open>try: del mydata[key] except (KeyError,TypeError): pass\<close> block: both
  exceptions that \<^verbatim>\<open>del\<close> can raise are swallowed and \<^verbatim>\<open>mydata\<close> stays as it was.
\<close>

definition try_del :: "string \<Rightarrow> json \<Rightarrow> json" where
  "try_del k mydata = (case py_delitem mydata k of Inr m \<Rightarrow> m | Inl e \<Rightarrow> mydata)"

definition get_essential_data :: "json \<Rightarrow> py_error + json" where
  "get_essential_data data =
     (if data \<noteq> JNull then
        (case py_copy data of
           Inl e \<Rightarrow> Inl e
         | Inr mydata \<Rightarrow>
             Inr (try_del ''notificationHistory''
                   (try_del ''limits'' (try_del ''markers'' (try_del ''sgs'' mydata)))))
      else Inr (JStr ''''))"

section \<open>\<^verbatim>\<open>json.dumps\<close>\<close>

text \<open>
  The default encoder: \<^verbatim>\<open>ensure_ascii\<close>, separators \<^verbatim>\<open>", "\<close> and \<^verbatim>\<open>": "\<close>. The text
  of a float is \<^verbatim>\<open>float.__repr__\<close>, which is taken as the parameter \<open>fr\<close>. A character
  of a \<open>string\<close> stands for the code point of the same number.
\<close>

definition hex_digit :: "nat \<Rightarrow> char" where
  "hex_digit n = (if n < 10 then char_of (48 + n) else char_of (87 + n))"

definition escape_char :: "char \<Rightarrow> string" where
  "escape_char c =
     (if c = CHR 0x22 then [CHR 0x5C, CHR 0x22]
      else if c = CHR 0x5C then [CHR 0x5C, CHR 0x5C]
      else if c = CHR 0x0A then [CHR 0x5C, CHR ''n'']
      else if c = CHR 0x0D then [CHR 0x5C, CHR ''r'']
      else if c = CHR 0x09 then [CHR 0x5C, CHR ''t'']
      else if c = CHR 0x08 then [CHR 0x5C, CHR ''b'']
      else if c = CHR 0x0C then [CHR 0x5C, CHR ''f'']
      else if (of_char c :: nat) < 32 \<or> 126 < (of_char c :: nat) then
        [CHR 0x5C, CHR ''u'', CHR ''0'', CHR ''0'',
         hex_digit (of_char c div 16), hex_digit (of_char c mod 16)]
      else [c])"

definition encode_str :: "string \<Rightarrow> string" where
  "encode_str s = CHR 0x22 # concat (map escape_char s) @ [CHR 0x22]"

fun join :: "string \<Rightarrow> string list \<Rightarrow> string" where
  "join sep [] = []"
| "join sep [x] = x"
| "join sep (x # y # ys) = x @ sep @ join sep (y # ys)"

fun json_dumps :: "(rat \<Rightarrow> string) \<Rightarrow> json \<Rightarrow> string" where
  "json_dumps fr JNull = ''null''"
| "json_dumps fr (JBool b) = (if b then ''true'' else ''false'')"
| "json_dumps fr (JInt k) = str_int k"
| "json_dumps fr (JFloat r) = fr r"
| "json_dumps fr (JStr s) = encode_str s"
| "json_dumps fr (JArr xs) = ''['' @ join '', '' (map (json_dumps fr) xs) @ '']''"
| "json_dumps fr (JObj d) =
     ''{'' @ join '', '' (map (\<lambda>kv. encode_str (fst kv) @ '': '' @ json_dumps fr (snd kv)) d)
       @ ''}''"

section \<open>The HTTP handler\<close>

text \<open>
  \<^verbatim>\<open>self.path.strip("/")\<close> removes every leading and every trailing slash.
\<close>

definition strip_slash :: "string \<Rightarrow> string" where
  "strip_slash s =
     rev (dropWhile (\<lambda>c. c = CHR ''/'') (rev (dropWhile (\<lambda>c. c = CHR ''/'') s)))"

record response =
  status_code :: int
  headers :: "(string \<times> string) list"
  body :: string

text \<open>
  The tail of \<^verbatim>\<open>do_GET\<close>: \<^verbatim>\<open>send_response\<close>, the two \<^verbatim>\<open>send_header\<close> calls and the
  write of the body. \<open>headers\<close> lists what the handler passes to \<^verbatim>\<open>send_header\<close>.
\<close>

definition send_response :: "int \<Rightarrow> string \<Rightarrow> response" where
  "send_response code resp =
     \<lparr>status_code = code,
      headers = [(''Content-type'', ''application/json''),
                 (''Access-Control-Allow-Origin'', ''*'')],
      body = resp\<rparr>"

text \<open>
  \<^verbatim>\<open>do_GET\<close> reads the global \<^verbatim>\<open>recentData\<close>, here its first argument after the
  float printer. An exception of \<^verbatim>\<open>get_essential_data\<close> leaves the handler before
  anything is sent.
\<close>

definition do_GET :: "(rat \<Rightarrow> string) \<Rightarrow> json \<Rightarrow> string \<Rightarrow> py_error + response" where
  "do_GET fr recent path =
     (if strip_slash path = BASEURI then
        Inr (send_response HTTP_OK (json_dumps fr recent))
      else if strip_slash path = BASEURI @ ''/'' @ OPT_NOHISTORY then
        (case get_essential_data recent of
           Inl e \<Rightarrow> Inl e
         | Inr v \<Rightarrow> Inr (send_response HTTP_OK (json_dumps fr v)))
      else Inr (send_response HTTP_NOT_FOUND []))"

section \<open>The poller\<close>

text \<open>
  The Carelink client is a collaborator outside the module. One call of
  \<^verbatim>\<open>client.getRecentData()\<close> either returns a value, after which the accessors
  \<^verbatim>\<open>getLastResponseCode()\<close>, \<^verbatim>\<open>getLastDataSuccess()\<close> and \<^verbatim>\<open>getLastErrorMessage()\<close>
  answer with the three further components, or raises an exception with a message.
  The client is the function that gives the outcome of its n-th call.
\<close>

datatype fetch_outcome =
    Returned json "int option" bool "string option"
  | Raised string

record client =
  login :: bool
  getLastResponseCode :: "int option"
  getLastErrorMessage :: "string option"
  getRecentData :: "nat \<Rightarrow> fetch_outcome"

datatype event =
    Debug string
  | Print string
  | Syslog string
  | Sleep int
  | CallGetRecentData
  | CallLogin
  | StartWebserver

record poller =
  recentData :: json
  calls :: nat
  trace :: "event list"

definition emit :: "event list \<Rightarrow> poller \<Rightarrow> poller" where
  "emit es st = st\<lparr>trace := trace st @ es\<rparr>"

fun str_code :: "int option \<Rightarrow> string" where
  "str_code None = ''None''"
| "str_code (Some k) = str_int k"

fun str_msg :: "string option \<Rightarrow> string" where
  "str_msg None = ''None''"
| "str_msg (Some m) = m"

text \<open>The texts that the main loop prints or logs.\<close>

definition starting_text :: "nat \<Rightarrow> string" where
  "starting_text i = ''Starting download '' @ str_int (int i)"

definition data_exception_text :: "string option \<Rightarrow> string" where
  "data_exception_text msg =
     (case msg of None \<Rightarrow> ''Data exception: no details available'' | Some m \<Rightarrow> m)"

definition forbidden_text :: string where
  "forbidden_text =
     ''GetRecentData login error (status code FORBIDDEN). Trying again in 1 sec''"

definition error_text :: "int option \<Rightarrow> string" where
  "error_text code = ''Error, response code: '' @ str_code code @ '' Trying again in 1 sec''"

definition waiting_text :: "int \<Rightarrow> string" where
  "waiting_text tmo = ''Waiting '' @ str_int tmo @ '' seconds before next download!''"

text \<open>
  \<^verbatim>\<open>for j in range(2)\<close>, with the number of iterations left as the first argument
  after the client. The result carries the message of an exception that left the loop,
  for the \<^verbatim>\<open>except\<close> clause around it. The assignment to \<^verbatim>\<open>recentData\<close> comes before
  any test of the response code.
\<close>

fun fetch_loop :: "(nat \<Rightarrow> fetch_outcome) \<Rightarrow> nat \<Rightarrow> poller \<Rightarrow> poller \<times> string option" where
  "fetch_loop get 0 st = (st, None)"
| "fetch_loop get (Suc k) st =
     (let st0 = emit [CallGetRecentData] (st\<lparr>calls := Suc (calls st)\<rparr>) in
      case get (calls st) of
        Raised e \<Rightarrow> (st0, Some e)
      | Returned d code ok msg \<Rightarrow>
          (let st1 = st0\<lparr>recentData := d\<rparr> in
           if code = Some HTTP_OK then
             (if ok then (emit [Debug ''New data received''] st1, None)
              else (emit [Print (data_exception_text msg)] st1, None))
           else if code = Some HTTP_FORBIDDEN then
             fetch_loop get k (emit [Print forbidden_text, Sleep 1] st1)
           else fetch_loop get k (emit [Print (error_text code), Sleep 1] st1)))"

subsection \<open>Float arithmetic\<close>

text \<open>
  An arithmetic operation on floats returns the double that is nearest to the exact
  result, ties going to the even significand. \<open>rint\<close> rounds a rational to the nearest
  integer in that way; \<open>expo x\<close> is the exponent of \<open>x\<close>, the \<open>e\<close> with
  \<open>2 ^ e \<le> |x| < 2 ^ (e + 1)\<close>; a double of that exponent is a multiple of
  \<open>2 ^ (e - 52)\<close>, the exponent being at least \<open>-1022\<close>. \<open>round_double\<close> gives \<open>None\<close>
  when the result is beyond the largest double.
\<close>

definition rint :: "rat \<Rightarrow> int" where
  "rint y =
     (let f = \<lfloor>y\<rfloor> in
      if y - of_int f < 1 / 2 then f
      else if 1 / 2 < y - of_int f then f + 1
      else if even f then f else f + 1)"

definition expo :: "rat \<Rightarrow> int" where
  "expo x =
     (let (a, b) = quotient_of \<bar>x\<bar>; d = bitlen a - bitlen b
      in if 2 powi d \<le> \<bar>x\<bar> then d else d - 1)"

definition round_double :: "rat \<Rightarrow> rat option" where
  "round_double x =
     (let e = max (expo x) (- 1022);
          r = of_int (rint (x / 2 powi (e - 52))) * 2 powi (e - 52)
      in if 2 ^ 1024 \<le> \<bar>r\<bar> then None else Some r)"

definition is_double :: "rat \<Rightarrow> bool" where
  "is_double x \<longleftrightarrow> round_double x = Some x"

text \<open>
  \<^verbatim>\<open>int(x)\<close> of a float truncates towards zero. \<^verbatim>\<open>x/1000\<close> is defined on numbers
  (a \<^verbatim>\<open>bool\<close> is one) and raises \<^verbatim>\<open>TypeError\<close> on anything else; its result is a
  float, the quotient rounded, and for an \<^verbatim>\<open>int\<close> whose quotient is beyond the largest
  double it raises \<^verbatim>\<open>OverflowError\<close> (the quotient of a double by 1000 never is).
\<close>

definition py_int :: "rat \<Rightarrow> int" where
  "py_int x = (if x < 0 then \<lceil>x\<rceil> else \<lfloor>x\<rfloor>)"

definition true_divide :: "rat \<Rightarrow> rat \<Rightarrow> py_error + rat" where
  "true_divide x y =
     (case round_double (x / y) of None \<Rightarrow> Inl OverflowError | Some q \<Rightarrow> Inr q)"

fun py_div1000 :: "json \<Rightarrow> py_error + rat" where
  "py_div1000 (JInt k) = true_divide (of_int k) 1000"
| "py_div1000 (JFloat r) = true_divide r 1000"
| "py_div1000 (JBool b) = true_divide (of_bool b) 1000"
| "py_div1000 _ = Inl TypeError"

text \<open>
  The block ``Calculate time until next reading'': \<open>now\<close> is the value of
  \<^verbatim>\<open>time.time()\<close>, a double, read only when \<^verbatim>\<open>recentData\<close> is not \<^verbatim>\<open>None\<close>. In
  \<^verbatim>\<open>nextReading - time.time()\<close> the \<^verbatim>\<open>int\<close> is converted to a float, which raises
  \<^verbatim>\<open>OverflowError\<close> beyond the largest double, and the difference is rounded; \<^verbatim>\<open>int\<close> of
  an infinite difference raises \<^verbatim>\<open>OverflowError\<close> too. The block is outside the
  \<^verbatim>\<open>try\<close>, so an exception in it ends the process.
\<close>

definition tmoSeconds :: "json \<Rightarrow> int \<Rightarrow> rat \<Rightarrow> py_error + int" where
  "tmoSeconds recent wait now =
     (if recent \<noteq> JNull then
        (case py_getitem recent ''lastConduitUpdateServerTime'' of
           Inl e \<Rightarrow> Inl e
         | Inr t \<Rightarrow>
             (case py_div1000 t of
                Inl e \<Rightarrow> Inl e
              | Inr q \<Rightarrow>
                  (let nextReading = py_int q + wait in
                   case round_double (of_int nextReading) of
                     None \<Rightarrow> Inl OverflowError
                   | Some n \<Rightarrow>
                       (case round_double (n - now) of
                          None \<Rightarrow> Inl OverflowError
                        | Some diff \<Rightarrow>
                            (let tmo = py_int diff
                             in Inr (if tmo < 0 then RETRY_INTERVAL else tmo))))))
      else Inr RETRY_INTERVAL)"

text \<open>
  One iteration of \<^verbatim>\<open>while True\<close>, \<open>i\<close> being the counter after \<^verbatim>\<open>i += 1\<close>. The first
  component of the result is the exception that ended the process, if any.
\<close>

definition poll_cycle ::
  "(nat \<Rightarrow> fetch_outcome) \<Rightarrow> int \<Rightarrow> rat \<Rightarrow> nat \<Rightarrow> poller \<Rightarrow> py_error option \<times> poller" where
  "poll_cycle get wait now i st =
     (let (st1, exc) = fetch_loop get 2 (emit [Debug (starting_text i)] st);
          st2 = (case exc of
                   None \<Rightarrow> st1
                 | Some e \<Rightarrow> emit [Print e, Syslog (''ERROR: '' @ e)] st1)
      in case tmoSeconds (recentData st2) wait now of
           Inl e \<Rightarrow> (Some e, st2)
         | Inr tmo \<Rightarrow>
             (None,
              emit [Debug (waiting_text tmo), Sleep (tmo + 10)] st2))"

datatype run = Running poller | Exited poller | Crashed py_error poller

text \<open>
  The loop never ends by itself; \<open>poll_loop\<close> runs its next \<open>n\<close> iterations, from the
  counter \<open>i\<close>, with \<open>clock j\<close> the value of \<^verbatim>\<open>time.time()\<close> in iteration \<open>j\<close>.
\<close>

fun poll_loop ::
  "(nat \<Rightarrow> fetch_outcome) \<Rightarrow> int \<Rightarrow> (nat \<Rightarrow> rat) \<Rightarrow> nat \<Rightarrow> nat \<Rightarrow> poller \<Rightarrow> run" where
  "poll_loop get wait clock i 0 st = Running st"
| "poll_loop get wait clock i (Suc n) st =
     (case poll_cycle get wait (clock (Suc i)) (Suc i) st of
        (Some e, st') \<Rightarrow> Crashed e st'
      | (None, st') \<Rightarrow> poll_loop get wait clock (Suc i) n st')"

text \<open>
  The module body from the command line on: \<open>args_wait\<close> is \<^verbatim>\<open>args.wait\<close>.
\<close>

definition startup_text :: string where
  "startup_text = ''Starting Carelink Client Proxy (version '' @ VERSION @ '')''"

definition login_error_text :: "client \<Rightarrow> string" where
  "login_error_text c =
     ''Client login error! Response code: '' @ str_code (getLastResponseCode c)
       @ '' Error message: '' @ str_msg (getLastErrorMessage c)"

definition main :: "client \<Rightarrow> int option \<Rightarrow> (nat \<Rightarrow> rat) \<Rightarrow> nat \<Rightarrow> run" where
  "main c args_wait clock n =
     (let wait = (case args_wait of None \<Rightarrow> UPDATE_INTERVAL | Some w \<Rightarrow> w);
          st = \<lparr>recentData = JNull, calls = 0,
                trace = [Syslog startup_text, StartWebserver, Debug ''Client created!'',
                         CallLogin]\<rparr>
      in if login c then poll_loop (getRecentData c) wait clock 0 n st
         else Exited (emit [Print (login_error_text c), Syslog (login_error_text c),
                            Syslog ''Emergency exit''] st))"

section \<open>Names used by the statements\<close>

text \<open>The four keys that \<^verbatim>\<open>get_essential_data\<close> deletes, in the order of the source.\<close>

definition reserved_keys :: "string list" where
  "reserved_keys = [''sgs'', ''markers'', ''limits'', ''notificationHistory'']"

text \<open>The two headers of \<^verbatim>\<open>do_GET\<close>.\<close>

definition std_headers :: "(string \<times> string) list" where
  "std_headers =
     [(''Content-type'', ''application/json''), (''Access-Control-Allow-Origin'', ''*'')]"

text \<open>
  The snapshot of the specification's example, a state of the poller that holds it from
  an earlier cycle, and two clients whose every call fails: one with status 403, one
  with status 500, both returning \<^verbatim>\<open>None\<close>.
\<close>

definition example_snapshot :: json where
  "example_snapshot =
     JObj [(''sgs'', JArr []), (''markers'', JArr []),
           (''lastConduitUpdateServerTime'', JInt 1000000)]"

definition stale_state :: poller where
  "stale_state = \<lparr>recentData = example_snapshot, calls = 0, trace = []\<rparr>"

definition forbidden_client :: "nat \<Rightarrow> fetch_outcome" where
  "forbidden_client n = Returned JNull (Some 403) False None"

definition failing_client :: "nat \<Rightarrow> fetch_outcome" where
  "failing_client n = Returned JNull (Some 500) False (Some ''Internal Server Error'')"

text \<open>
  The calls of \<^verbatim>\<open>getRecentData\<close> and of \<^verbatim>\<open>time.sleep\<close> among the events that lead from
  one state of the poller to a later one.
\<close>

fun is_step :: "event \<Rightarrow> bool" where
  "is_step CallGetRecentData = True"
| "is_step (Sleep n) = True"
| "is_step _ = False"

definition steps :: "poller \<Rightarrow> poller \<Rightarrow> event list" where
  "steps st st' = filter is_step (drop (length (trace st)) (trace st'))"

text \<open>The state of the poller in which a run is, or ended.\<close>

fun state_of :: "run \<Rightarrow> poller" where
  "state_of (Running st) = st"
| "state_of (Exited st) = st"
| "state_of (Crashed e st) = st"

text \<open>
  Abbreviations for the proofs: the state after a call of \<^verbatim>\<open>getRecentData\<close> and the
  assignment of its result, and the message printed after a failed and after an
  accepted attempt.
\<close>

definition fetched :: "poller \<Rightarrow> json \<Rightarrow> poller" where
  "fetched st d = (emit [CallGetRecentData] (st\<lparr>calls := Suc (calls st)\<rparr>))\<lparr>recentData := d\<rparr>"

definition retry_print :: "int option \<Rightarrow> event" where
  "retry_print c = Print (if c = Some 403 then forbidden_text else error_text c)"

definition done_print :: "bool \<Rightarrow> string option \<Rightarrow> event" where
  "done_print ok m = (if ok then Debug ''New data received'' else Print (data_exception_text m))"

text \<open>
  What the module does before the test of \<^verbatim>\<open>client.login()\<close>, a client whose login is
  refused, and a client whose every call returns the example snapshot with status 200.
\<close>

definition startup_events :: "event list" where
  "startup_events = [Syslog startup_text, StartWebserver, Debug ''Client created!'', CallLogin]"

definition refusing_client :: client where
  "refusing_client =
     \<lparr>login = False, getLastResponseCode = Some 401,
      getLastErrorMessage = Some ''Unauthorized'', getRecentData = failing_client\<rparr>"

definition healthy_client :: "nat \<Rightarrow> fetch_outcome" where
  "healthy_client n = Returned example_snapshot (Some 200) True None"

section \<open>Properties of the HTTP handler\<close>

lemma strip_carelink:
  "strip_slash ''/carelink'' = ''carelink''"
  "strip_slash ''/carelink/'' = ''carelink''"
  "strip_slash ''/carelink/nohistory'' = ''carelink/nohistory''"
  by (simp_all add: strip_slash_def)

lemma try_del_obj: "try_del k (JObj d) = JObj (filter (\<lambda>kv. fst kv \<noteq> k) d)"
proof (cases "k \<in> fst ` set d")
  case True
  then show ?thesis by (simp add: try_del_def)
next
  case False
  then have "filter (\<lambda>kv. fst kv \<noteq> k) d = d"
    by (auto intro!: filter_True)
  with False show ?thesis by (simp add: try_del_def)
qed

lemma essential_obj:
  "get_essential_data (JObj d) = Inr (JObj (filter (\<lambda>kv. fst kv \<notin> set reserved_keys) d))"
proof -
  have "(\<lambda>kv::string \<times> json. fst kv \<noteq> ''sgs'' \<and> fst kv \<noteq> ''markers''
           \<and> fst kv \<noteq> ''limits'' \<and> fst kv \<noteq> ''notificationHistory'')
        = (\<lambda>kv. fst kv \<notin> set reserved_keys)"
    by (auto simp: reserved_keys_def)
  then show ?thesis
    by (simp add: get_essential_data_def try_del_obj)
qed

lemma map_of_filter_keys: "map_of (filter (\<lambda>kv. fst kv \<notin> K) d) = map_of d |` (- K)"
  by (induction d) (auto simp: restrict_map_def fun_eq_iff)

text \<open>
  Claim C3. For every dict \<open>d\<close> held in \<^verbatim>\<open>recentData\<close>, whichever of the reserved keys
  it has, \<^verbatim>\<open>get_essential_data\<close> raises nothing and returns \<open>d\<close> without the entries
  whose key is \<^verbatim>\<open>sgs\<close>, \<^verbatim>\<open>markers\<close>, \<^verbatim>\<open>limits\<close> or \<^verbatim>\<open>notificationHistory\<close>: the other
  entries stay, in their order and with their values (as a lookup table the result is
  \<open>d\<close> restricted to the other keys). \<^verbatim>\<open>/carelink\<close> answers 200 with the text of \<open>d\<close>,
  \<^verbatim>\<open>/carelink/nohistory\<close> answers 200 with the text of that reduced dict.
\<close>

theorem C3_lite_view:
  "get_essential_data (JObj d) = Inr (JObj (filter (\<lambda>kv. fst kv \<notin> set reserved_keys) d))
   \<and> map_of (filter (\<lambda>kv. fst kv \<notin> set reserved_keys) d) = map_of d |` (- set reserved_keys)
   \<and> do_GET fr (JObj d) ''/carelink'' = Inr (send_response 200 (json_dumps fr (JObj d)))
   \<and> do_GET fr (JObj d) ''/carelink/nohistory''
       = Inr (send_response 200
               (json_dumps fr (JObj (filter (\<lambda>kv. fst kv \<notin> set reserved_keys) d))))"
  by (simp add: essential_obj map_of_filter_keys do_GET_def strip_carelink BASEURI_def
      OPT_NOHISTORY_def HTTP_OK_def)

text \<open>
  Claim C4. While \<^verbatim>\<open>recentData\<close> is still \<^verbatim>\<open>None\<close>, a GET of \<^verbatim>\<open>/carelink\<close> (or
  \<^verbatim>\<open>/carelink/\<close>) is answered with status 200 and the body \<^verbatim>\<open>null\<close>, and a GET of
  \<^verbatim>\<open>/carelink/nohistory\<close> with status 200 and the JSON text of the empty string (two
  double quotes); neither is an error.
\<close>

theorem C4_empty_store:
  "do_GET fr JNull ''/carelink''
     = Inr \<lparr>status_code = 200, headers = std_headers, body = ''null''\<rparr>
   \<and> do_GET fr JNull ''/carelink/''
     = Inr \<lparr>status_code = 200, headers = std_headers, body = ''null''\<rparr>
   \<and> do_GET fr JNull ''/carelink/nohistory''
     = Inr \<lparr>status_code = 200, headers = std_headers, body = [CHR 0x22, CHR 0x22]\<rparr>"
  by (simp add: do_GET_def strip_carelink BASEURI_def OPT_NOHISTORY_def send_response_def
      HTTP_OK_def std_headers_def get_essential_data_def encode_str_def)

text \<open>
  Claim C7. A GET whose path, leading and trailing slashes apart, is neither
  \<^verbatim>\<open>carelink\<close> nor \<^verbatim>\<open>carelink/nohistory\<close> is answered with status 404 and an empty
  body; and every response of the handler, that one included, carries the headers
  \<^verbatim>\<open>Content-type: application/json\<close> and \<^verbatim>\<open>Access-Control-Allow-Origin: *\<close>.
\<close>

theorem C7_undefined_path:
  "(strip_slash path \<noteq> ''carelink'' \<and> strip_slash path \<noteq> ''carelink/nohistory''
      \<longrightarrow> do_GET fr recent path
            = Inr \<lparr>status_code = 404, headers = std_headers, body = []\<rparr>)
   \<and> (\<forall>r. do_GET fr recent path = Inr r \<longrightarrow> headers r = std_headers)"
  by (auto simp: do_GET_def BASEURI_def OPT_NOHISTORY_def send_response_def HTTP_NOT_FOUND_def
      std_headers_def split: sum.splits)

theorem C7_undefined_path_witness:
  "strip_slash ''/carelink/history'' \<noteq> ''carelink''
   \<and> strip_slash ''/carelink/history'' \<noteq> ''carelink/nohistory''
   \<and> do_GET (\<lambda>r. []) JNull ''/carelink/history''
       = Inr \<lparr>status_code = 404, headers = std_headers, body = []\<rparr>
   \<and> headers \<lparr>status_code = 404, headers = std_headers, body = []\<rparr> = std_headers"
  using C7_undefined_path [of "''/carelink/history''" "\<lambda>r. []" JNull]
  by (simp add: strip_slash_def)

section \<open>Properties of the poller\<close>

lemma emit_simps [simp]:
  "recentData (emit es st) = recentData st"
  "calls (emit es st) = calls st"
  "trace (emit es st) = trace st @ es"
  by (simp_all add: emit_def)

lemma fetched_simps [simp]:
  "recentData (fetched st d) = d"
  "calls (fetched st d) = Suc (calls st)"
  "trace (fetched st d) = trace st @ [CallGetRecentData]"
  by (simp_all add: fetched_def)

lemma fetch_loop_Raised:
  assumes "get (calls st) = Raised e"
  shows "fetch_loop get (Suc k) st = (fetched st (recentData st), Some e)"
  using assms by (simp add: fetched_def emit_def)

lemma fetch_loop_OK:
  assumes "get (calls st) = Returned d (Some 200) ok m"
  shows "fetch_loop get (Suc k) st =
           (emit [if ok then Debug ''New data received'' else Print (data_exception_text m)]
              (fetched st d), None)"
  using assms by (simp add: fetched_def HTTP_OK_def)

lemma fetch_loop_retry:
  assumes "get (calls st) = Returned d c ok m" and "c \<noteq> Some 200"
  shows "fetch_loop get (Suc k) st =
           fetch_loop get k
             (emit [Print (if c = Some 403 then forbidden_text else error_text c), Sleep 1]
                (fetched st d))"
  using assms by (simp add: fetched_def HTTP_OK_def HTTP_FORBIDDEN_def)

lemma is_step_prints [simp]: "\<not> is_step (retry_print c)" "\<not> is_step (done_print ok m)"
  by (simp_all add: retry_print_def done_print_def)

lemma fetch_loop_2_cases [case_names raised1 ok1 raised2 ok2 fail2]:
  obtains
    e where "get (calls st) = Raised e"
      and "fetch_loop get 2 st = (fetched st (recentData st), Some e)"
  | d ok m where "get (calls st) = Returned d (Some 200) ok m"
      and "fetch_loop get 2 st = (emit [done_print ok m] (fetched st d), None)"
  | d c ok m e where "get (calls st) = Returned d c ok m" and "c \<noteq> Some 200"
      and "get (Suc (calls st)) = Raised e"
      and "fetch_loop get 2 st
           = (fetched (emit [retry_print c, Sleep 1] (fetched st d)) d, Some e)"
  | d c ok m d2 ok2 m2 where "get (calls st) = Returned d c ok m" and "c \<noteq> Some 200"
      and "get (Suc (calls st)) = Returned d2 (Some 200) ok2 m2"
      and "fetch_loop get 2 st
           = (emit [done_print ok2 m2]
                (fetched (emit [retry_print c, Sleep 1] (fetched st d)) d2), None)"
  | d c ok m d2 c2 ok2 m2 where "get (calls st) = Returned d c ok m" and "c \<noteq> Some 200"
      and "get (Suc (calls st)) = Returned d2 c2 ok2 m2" and "c2 \<noteq> Some 200"
      and "fetch_loop get 2 st
           = (emit [retry_print c2, Sleep 1]
                (fetched (emit [retry_print c, Sleep 1] (fetched st d)) d2), None)"
proof (cases "get (calls st)")
  case (Raised e)
  then have "fetch_loop get 2 st = (fetched st (recentData st), Some e)"
    unfolding numeral_2_eq_2 by (rule fetch_loop_Raised)
  with Raised show ?thesis by (rule that(1))
next
  case (Returned d c ok m)
  show ?thesis
  proof (cases "c = Some 200")
    case True
    with Returned have g: "get (calls st) = Returned d (Some 200) ok m" by simp
    then have "fetch_loop get 2 st = (emit [done_print ok m] (fetched st d), None)"
      unfolding numeral_2_eq_2 done_print_def by (rule fetch_loop_OK)
    with g show ?thesis by (rule that(2))
  next
    case False
    define st1 where "st1 = emit [retry_print c, Sleep 1] (fetched st d)"
    have c1: "calls st1 = Suc (calls st)" by (simp add: st1_def)
    have step: "fetch_loop get 2 st = fetch_loop get (Suc 0) st1"
      unfolding numeral_2_eq_2 st1_def retry_print_def
      using Returned False by (rule fetch_loop_retry)
    show ?thesis
    proof (cases "get (Suc (calls st))")
      case (Raised e)
      then have "get (calls st1) = Raised e" by (simp add: c1)
      then have "fetch_loop get (Suc 0) st1 = (fetched st1 (recentData st1), Some e)"
        by (rule fetch_loop_Raised)
      then have "fetch_loop get 2 st
           = (fetched (emit [retry_print c, Sleep 1] (fetched st d)) d, Some e)"
        using step by (simp add: st1_def)
      with Returned False Raised show ?thesis by (rule that(3))
    next
      case R2: (Returned d2 c2 ok2 m2)
      show ?thesis
      proof (cases "c2 = Some 200")
        case True
        with R2 have g2: "get (Suc (calls st)) = Returned d2 (Some 200) ok2 m2" by simp
        then have "get (calls st1) = Returned d2 (Some 200) ok2 m2" by (simp add: c1)
        then have "fetch_loop get (Suc 0) st1 = (emit [done_print ok2 m2] (fetched st1 d2), None)"
          unfolding done_print_def by (rule fetch_loop_OK)
        then have "fetch_loop get 2 st
           = (emit [done_print ok2 m2]
                (fetched (emit [retry_print c, Sleep 1] (fetched st d)) d2), None)"
          using step by (simp add: st1_def)
        with Returned False g2 show ?thesis by (rule that(4))
      next
        case F2: False
        from R2 have "get (calls st1) = Returned d2 c2 ok2 m2" by (simp add: c1)
        then have "fetch_loop get (Suc 0) st1
            = fetch_loop get 0 (emit [retry_print c2, Sleep 1] (fetched st1 d2))"
          unfolding retry_print_def using F2 by (rule fetch_loop_retry)
        then have "fetch_loop get 2 st
           = (emit [retry_print c2, Sleep 1]
                (fetched (emit [retry_print c, Sleep 1] (fetched st d)) d2), None)"
          using step by (simp add: st1_def)
        with Returned False R2 F2 show ?thesis by (rule that(5))
      qed
    qed
  qed
qed

lemma steps_two_attempts:
  "steps st (fst (fetch_loop get 2 st)) =
     (case get (calls st) of
        Raised e \<Rightarrow> [CallGetRecentData]
      | Returned d c ok m \<Rightarrow>
          if c = Some 200 then [CallGetRecentData]
          else (case get (Suc (calls st)) of
                  Raised e \<Rightarrow> [CallGetRecentData, Sleep 1, CallGetRecentData]
                | Returned d2 c2 ok2 m2 \<Rightarrow>
                    if c2 = Some 200 then [CallGetRecentData, Sleep 1, CallGetRecentData]
                    else [CallGetRecentData, Sleep 1, CallGetRecentData, Sleep 1]))"
  by (cases rule: fetch_loop_2_cases [of get st]) (simp_all add: steps_def)

lemma calls_two_attempts:
  "calls (fst (fetch_loop get 2 st)) =
     (case get (calls st) of
        Raised e \<Rightarrow> calls st + 1
      | Returned d c ok m \<Rightarrow> if c = Some 200 then calls st + 1 else calls st + 2)"
  by (cases rule: fetch_loop_2_cases [of get st]) simp_all

lemma store_two_attempts:
  "recentData (fst (fetch_loop get 2 st)) =
     (case get (calls st) of
        Raised e \<Rightarrow> recentData st
      | Returned d c ok m \<Rightarrow>
          if c = Some 200 then d
          else (case get (Suc (calls st)) of Raised e \<Rightarrow> d | Returned d2 c2 ok2 m2 \<Rightarrow> d2))"
  by (cases rule: fetch_loop_2_cases [of get st]) simp_all

lemma store_one_attempt:
  "recentData (fst (fetch_loop get (Suc 0) st)) =
     (case get (calls st) of Raised e \<Rightarrow> recentData st | Returned d c ok m \<Rightarrow> d)"
proof (cases "get (calls st)")
  case (Raised e)
  then show ?thesis by (simp add: fetch_loop_Raised del: fetch_loop.simps(2))
next
  case (Returned d c ok m)
  then show ?thesis
    by (cases "c = Some 200")
      (simp_all add: fetch_loop_OK fetch_loop_retry del: fetch_loop.simps(2))
qed

lemma calls_poll_cycle:
  "calls (snd (poll_cycle get wait now i st)) =
     calls (fst (fetch_loop get 2 (emit [Debug (starting_text i)] st)))"
  by (simp add: poll_cycle_def Let_def split: prod.splits option.splits sum.splits)

lemma store_poll_cycle:
  "recentData (snd (poll_cycle get wait now i st)) =
     recentData (fst (fetch_loop get 2 (emit [Debug (starting_text i)] st)))"
  by (simp add: poll_cycle_def Let_def split: prod.splits option.splits sum.splits)

text \<open>
  Claim C1, as amended. The assignment \<^verbatim>\<open>recentData = client.getRecentData()\<close> precedes
  every test of the outcome: after an attempt that returns, \<^verbatim>\<open>recentData\<close> is the value
  that the attempt returned, whatever the status code and the success flag; an attempt
  that raises leaves it as it was. Hence after a cycle it is the value returned by the
  last attempt of the cycle that returned, and unchanged only if the first attempt raised.
\<close>

theorem C1_store_follows_fetch:
  "recentData (fst (fetch_loop get 1 st)) =
     (case get (calls st) of Raised e \<Rightarrow> recentData st | Returned d c ok m \<Rightarrow> d)
   \<and> recentData (snd (poll_cycle get wait now i st)) =
     (case get (calls st) of
        Raised e \<Rightarrow> recentData st
      | Returned d c ok m \<Rightarrow>
          if c = Some 200 then d
          else (case get (Suc (calls st)) of Raised e \<Rightarrow> d | Returned d2 c2 ok2 m2 \<Rightarrow> d2))"
proof -
  have "recentData (fst (fetch_loop get 1 st)) =
     (case get (calls st) of Raised e \<Rightarrow> recentData st | Returned d c ok m \<Rightarrow> d)"
    unfolding One_nat_def by (rule store_one_attempt)
  moreover have "recentData (snd (poll_cycle get wait now i st)) =
     (case get (calls st) of
        Raised e \<Rightarrow> recentData st
      | Returned d c ok m \<Rightarrow>
          if c = Some 200 then d
          else (case get (Suc (calls st)) of Raised e \<Rightarrow> d | Returned d2 c2 ok2 m2 \<Rightarrow> d2))"
    unfolding store_poll_cycle store_two_attempts by (simp split: fetch_outcome.splits)
  ultimately show ?thesis by (rule conjI)
qed

text \<open>
  Claim C1 as stated fails: with the example snapshot stored and a client answering 403
  with \<^verbatim>\<open>None\<close>, the attempts of a cycle leave \<^verbatim>\<open>None\<close> in \<^verbatim>\<open>recentData\<close>.
\<close>

theorem C1_counterexample:
  "forbidden_client 0 = Returned JNull (Some 403) False None
   \<and> forbidden_client 1 = Returned JNull (Some 403) False None
   \<and> recentData stale_state = example_snapshot
   \<and> example_snapshot \<noteq> JNull
   \<and> recentData (fst (fetch_loop forbidden_client 2 stale_state)) = JNull"
  by (simp add: store_two_attempts forbidden_client_def stale_state_def example_snapshot_def)

text \<open>
  Claim C6. The calls of \<^verbatim>\<open>getRecentData\<close> and the sleeps of one poll cycle are: one
  call, if the first attempt returns status 200 (whatever the success flag) or raises;
  otherwise a sleep of 1 second and a second call, followed by a further sleep of
  1 second exactly when the second attempt returns a status other than 200; and after
  these the sleep before the next cycle, if the scheduling block computes a delay. So a
  cycle makes 1 or 2 calls, never more. The same holds of the attempts alone
  (\<^verbatim>\<open>for j in range(2)\<close>).
\<close>

theorem C6_attempts:
  "steps st (fst (fetch_loop get 2 st)) =
     (case get (calls st) of
        Raised e \<Rightarrow> [CallGetRecentData]
      | Returned d c ok m \<Rightarrow>
          if c = Some 200 then [CallGetRecentData]
          else (case get (Suc (calls st)) of
                  Raised e \<Rightarrow> [CallGetRecentData, Sleep 1, CallGetRecentData]
                | Returned d2 c2 ok2 m2 \<Rightarrow>
                    if c2 = Some 200 then [CallGetRecentData, Sleep 1, CallGetRecentData]
                    else [CallGetRecentData, Sleep 1, CallGetRecentData, Sleep 1]))
   \<and> calls (fst (fetch_loop get 2 st)) - calls st \<le> 2
   \<and> length (filter (\<lambda>e. e = CallGetRecentData) (steps st (fst (fetch_loop get 2 st))))
       = calls (fst (fetch_loop get 2 st)) - calls st
   \<and> calls (snd (poll_cycle get wait now i st)) - calls st \<le> 2
   \<and> steps st (snd (poll_cycle get wait now i st)) =
       (case get (calls st) of
          Raised e \<Rightarrow> [CallGetRecentData]
        | Returned d c ok m \<Rightarrow>
            if c = Some 200 then [CallGetRecentData]
            else (case get (Suc (calls st)) of
                    Raised e \<Rightarrow> [CallGetRecentData, Sleep 1, CallGetRecentData]
                  | Returned d2 c2 ok2 m2 \<Rightarrow>
                      if c2 = Some 200 then [CallGetRecentData, Sleep 1, CallGetRecentData]
                      else [CallGetRecentData, Sleep 1, CallGetRecentData, Sleep 1]))
       @ (case tmoSeconds (recentData (snd (poll_cycle get wait now i st))) wait now of
            Inl e \<Rightarrow> []
          | Inr tmo \<Rightarrow> [Sleep (tmo + 10)])
   \<and> calls (snd (poll_cycle get wait now i st)) =
       calls st + (case get (calls st) of
                     Raised e \<Rightarrow> 1
                   | Returned d c ok m \<Rightarrow> if c = Some 200 then 1 else 2)"
proof -
  have "calls (snd (poll_cycle get wait now i st)) - calls st \<le> 2"
    unfolding calls_poll_cycle calls_two_attempts by (simp split: fetch_outcome.splits)
  moreover
  have "length (filter (\<lambda>e. e = CallGetRecentData) (steps st (fst (fetch_loop get 2 st))))
       = calls (fst (fetch_loop get 2 st)) - calls st"
    by (cases rule: fetch_loop_2_cases [of get st]) (simp_all add: steps_def)
  moreover have "calls (fst (fetch_loop get 2 st)) - calls st \<le> 2"
    by (cases rule: fetch_loop_2_cases [of get st]) simp_all
  moreover have "steps st (snd (poll_cycle get wait now i st)) =
       (case get (calls st) of
          Raised e \<Rightarrow> [CallGetRecentData]
        | Returned d c ok m \<Rightarrow>
            if c = Some 200 then [CallGetRecentData]
            else (case get (Suc (calls st)) of
                    Raised e \<Rightarrow> [CallGetRecentData, Sleep 1, CallGetRecentData]
                  | Returned d2 c2 ok2 m2 \<Rightarrow>
                      if c2 = Some 200 then [CallGetRecentData, Sleep 1, CallGetRecentData]
                      else [CallGetRecentData, Sleep 1, CallGetRecentData, Sleep 1]))
       @ (case tmoSeconds (recentData (snd (poll_cycle get wait now i st))) wait now of
            Inl e \<Rightarrow> []
          | Inr tmo \<Rightarrow> [Sleep (tmo + 10)])"
  proof -
    define X where "X = tmoSeconds (recentData (snd (poll_cycle get wait now i st))) wait now"
    have tail: "filter is_step
          (case X of Inl e \<Rightarrow> [] | Inr tmo \<Rightarrow> [Debug (waiting_text tmo), Sleep (tmo + 10)])
        = (case X of Inl e \<Rightarrow> [] | Inr tmo \<Rightarrow> [Sleep (tmo + 10)])"
      by (simp split: sum.splits)
    have tr: "trace (snd (poll_cycle get wait now i st)) =
        trace (fst (fetch_loop get 2 (emit [Debug (starting_text i)] st)))
        @ (case snd (fetch_loop get 2 (emit [Debug (starting_text i)] st)) of
             None \<Rightarrow> [] | Some e \<Rightarrow> [Print e, Syslog (''ERROR: '' @ e)])
        @ (case X of Inl e \<Rightarrow> [] | Inr tmo \<Rightarrow> [Debug (waiting_text tmo), Sleep (tmo + 10)])"
      unfolding X_def store_poll_cycle
      by (simp add: poll_cycle_def Let_def split: prod.splits option.splits sum.splits)
    show ?thesis
      unfolding X_def [symmetric] steps_def tr
      by (cases rule: fetch_loop_2_cases [of get "emit [Debug (starting_text i)] st"])
        (simp_all add: tail)
  qed
  moreover have "calls (snd (poll_cycle get wait now i st)) =
       calls st + (case get (calls st) of
                     Raised e \<Rightarrow> 1
                   | Returned d c ok m \<Rightarrow> if c = Some 200 then 1 else 2)"
    unfolding calls_poll_cycle calls_two_attempts by (simp split: fetch_outcome.splits)
  ultimately show ?thesis
    using steps_two_attempts [of st get] by simp
qed

lemma poll_cycle_sleep:
  assumes "tmoSeconds (recentData (snd (poll_cycle get wait now i st))) wait now = Inr tmo"
  shows "fst (poll_cycle get wait now i st) = None"
    and "last (trace (snd (poll_cycle get wait now i st))) = Sleep (tmo + 10)"
  using assms
  by (auto simp: poll_cycle_def Let_def split: prod.splits option.splits sum.splits)

lemma poll_cycle_crash:
  assumes "tmoSeconds (recentData (snd (poll_cycle get wait now i st))) wait now = Inl e"
  shows "fst (poll_cycle get wait now i st) = Some e"
  using assms
  by (auto simp: poll_cycle_def Let_def split: prod.splits option.splits sum.splits)

text \<open>
  Claim C10. In every cycle in which the scheduling block computes a delay \<open>tmo\<close>
  (it raises on a snapshot without a \<^verbatim>\<open>lastConduitUpdateServerTime\<close> in range), whatever
  the attempts did, the cycle ends with \<^verbatim>\<open>time.sleep(tmo + 10)\<close>; with \<^verbatim>\<open>recentData\<close>
  \<^verbatim>\<open>None\<close> the delay is the retry interval 120, so the sleep is 130 seconds.
\<close>

theorem C10_grace_always:
  assumes "tmoSeconds (recentData (snd (poll_cycle get wait now i st))) wait now = Inr tmo"
  shows "fst (poll_cycle get wait now i st) = None
       \<and> last (trace (snd (poll_cycle get wait now i st))) = Sleep (tmo + 10)
       \<and> (recentData (snd (poll_cycle get wait now i st)) = JNull \<longrightarrow> tmo = 120)"
proof -
  have "recentData (snd (poll_cycle get wait now i st)) = JNull \<longrightarrow> tmo = 120"
    using assms by (auto simp: tmoSeconds_def RETRY_INTERVAL_def)
  with poll_cycle_sleep [OF assms] show ?thesis by simp
qed

lemma failing_cycle_store:
  "recentData (snd (poll_cycle failing_client wait now i stale_state)) = JNull"
  unfolding store_poll_cycle store_two_attempts by (simp add: failing_client_def)

theorem C10_grace_always_witness:
  "tmoSeconds (recentData (snd (poll_cycle failing_client 300 1000300 1 stale_state))) 300 1000300
     = Inr 120
   \<and> fst (poll_cycle failing_client 300 1000300 1 stale_state) = None
   \<and> last (trace (snd (poll_cycle failing_client 300 1000300 1 stale_state))) = Sleep 130"
proof -
  have h: "tmoSeconds (recentData (snd (poll_cycle failing_client 300 1000300 1 stale_state)))
             300 1000300 = Inr 120"
    unfolding failing_cycle_store by (simp add: tmoSeconds_def RETRY_INTERVAL_def)
  from C10_grace_always [OF h] h show ?thesis by simp
qed

text \<open>
  Claim C5, as amended. When both attempts of a cycle return a status other than 200,
  \<^verbatim>\<open>recentData\<close> holds what the second attempt returned, not the snapshot held before;
  when that is \<^verbatim>\<open>None\<close>, the delay is the retry interval 120 and the cycle ends with a
  sleep of 130 seconds.
\<close>

theorem C5_exhausted_attempts:
  assumes "get (calls st) = Returned d1 c1 ok1 m1" and "c1 \<noteq> Some 200"
    and "get (Suc (calls st)) = Returned d2 c2 ok2 m2" and "c2 \<noteq> Some 200"
  shows "recentData (snd (poll_cycle get wait now i st)) = d2
       \<and> (d2 = JNull \<longrightarrow>
            tmoSeconds (recentData (snd (poll_cycle get wait now i st))) wait now = Inr 120
            \<and> fst (poll_cycle get wait now i st) = None
            \<and> last (trace (snd (poll_cycle get wait now i st))) = Sleep 130)"
proof -
  have store: "recentData (snd (poll_cycle get wait now i st)) = d2"
    unfolding store_poll_cycle store_two_attempts using assms by simp
  moreover have "tmoSeconds (recentData (snd (poll_cycle get wait now i st))) wait now = Inr 120
            \<and> fst (poll_cycle get wait now i st) = None
            \<and> last (trace (snd (poll_cycle get wait now i st))) = Sleep 130" if "d2 = JNull"
  proof -
    have t: "tmoSeconds (recentData (snd (poll_cycle get wait now i st))) wait now = Inr 120"
      unfolding store using that by (simp add: tmoSeconds_def RETRY_INTERVAL_def)
    from poll_cycle_sleep [OF t] t show ?thesis by simp
  qed
  ultimately show ?thesis by simp
qed

theorem C5_exhausted_attempts_witness:
  "failing_client (calls stale_state)
     = Returned JNull (Some 500) False (Some ''Internal Server Error'')
   \<and> Some (500::int) \<noteq> Some 200
   \<and> failing_client (Suc (calls stale_state))
     = Returned JNull (Some 500) False (Some ''Internal Server Error'')
   \<and> recentData (snd (poll_cycle failing_client 300 1000300 1 stale_state)) = JNull
   \<and> tmoSeconds (recentData (snd (poll_cycle failing_client 300 1000300 1 stale_state)))
        300 1000300 = Inr 120
   \<and> fst (poll_cycle failing_client 300 1000300 1 stale_state) = None
   \<and> last (trace (snd (poll_cycle failing_client 300 1000300 1 stale_state))) = Sleep 130"
proof -
  have a: "failing_client (calls stale_state)
     = Returned JNull (Some 500) False (Some ''Internal Server Error'')"
    and b: "failing_client (Suc (calls stale_state))
     = Returned JNull (Some 500) False (Some ''Internal Server Error'')"
    by (simp_all add: failing_client_def)
  have c: "Some (500::int) \<noteq> Some 200" by simp
  from C5_exhausted_attempts [OF a c b c, of 300 1000300 1] a b show ?thesis
    by (simp add: tmoSeconds_def RETRY_INTERVAL_def)
qed

text \<open>
  Claim C5 as stated fails: two attempts answered 500 with \<^verbatim>\<open>None\<close> replace the stored
  example snapshot by \<^verbatim>\<open>None\<close>.
\<close>

theorem C5_counterexample:
  "failing_client 0 = Returned JNull (Some 500) False (Some ''Internal Server Error'')
   \<and> failing_client 1 = Returned JNull (Some 500) False (Some ''Internal Server Error'')
   \<and> recentData stale_state = example_snapshot
   \<and> recentData (snd (poll_cycle failing_client 300 1000300 1 stale_state)) = JNull
   \<and> example_snapshot \<noteq> JNull"
proof -
  have "recentData (snd (poll_cycle failing_client 300 1000300 1 stale_state)) = JNull"
    by (rule failing_cycle_store)
  moreover have "recentData stale_state = example_snapshot \<and> example_snapshot \<noteq> JNull"
    by (simp add: stale_state_def example_snapshot_def)
  ultimately show ?thesis by (simp add: failing_client_def)
qed

section \<open>Properties of the start-up\<close>

lemma fetch_loop_2_no_login:
  "\<exists>es. trace (fst (fetch_loop get 2 st)) = trace st @ es \<and> CallLogin \<notin> set es"
  by (cases rule: fetch_loop_2_cases [of get st])
    (simp_all add: retry_print_def done_print_def)

lemma poll_cycle_no_login:
  "\<exists>es. trace (snd (poll_cycle get wait now i st)) = trace st @ es \<and> CallLogin \<notin> set es"
proof -
  obtain es where es: "trace (fst (fetch_loop get 2 (emit [Debug (starting_text i)] st)))
      = trace (emit [Debug (starting_text i)] st) @ es" "CallLogin \<notin> set es"
    using fetch_loop_2_no_login by blast
  then show ?thesis
    by (auto simp: poll_cycle_def Let_def split: prod.splits option.splits sum.splits)
qed

lemma poll_loop_no_login:
  "\<exists>es. trace (state_of (poll_loop get wait clock i n st)) = trace st @ es \<and> CallLogin \<notin> set es"
proof (induction n arbitrary: i st)
  case 0
  then show ?case by simp
next
  case (Suc n)
  obtain err st' where pc: "poll_cycle get wait (clock (Suc i)) (Suc i) st = (err, st')"
    by (cases "poll_cycle get wait (clock (Suc i)) (Suc i) st")
  obtain es where es: "trace st' = trace st @ es" "CallLogin \<notin> set es"
    using poll_cycle_no_login [of get wait "clock (Suc i)" "Suc i" st] pc by auto
  show ?case
  proof (cases err)
    case None
    obtain es' where "trace (state_of (poll_loop get wait clock (Suc i) n st')) = trace st' @ es'"
      "CallLogin \<notin> set es'"
      using Suc.IH by blast
    with es pc None show ?thesis by simp
  next
    case (Some e)
    with es pc show ?thesis by simp
  qed
qed

text \<open>
  Claim C8. Every run calls \<^verbatim>\<open>client.login()\<close> exactly once, as the fourth event, before
  the loop. If it returns false the process ends at once: \<^verbatim>\<open>getRecentData\<close> is never
  called, the text with the response code and the error message is printed and written
  to the system log, followed by the log entry \<^verbatim>\<open>Emergency exit\<close>.
\<close>

theorem C8_login_failure:
  "take 4 (trace (state_of (main c w clock n))) = startup_events
   \<and> CallLogin \<notin> set (drop 4 (trace (state_of (main c w clock n))))
   \<and> (\<not> login c \<longrightarrow>
        main c w clock n =
          Exited \<lparr>recentData = JNull, calls = 0,
                  trace = startup_events @
                    [Print (''Client login error! Response code: ''
                              @ str_code (getLastResponseCode c)
                              @ '' Error message: '' @ str_msg (getLastErrorMessage c)),
                     Syslog (''Client login error! Response code: ''
                              @ str_code (getLastResponseCode c)
                              @ '' Error message: '' @ str_msg (getLastErrorMessage c)),
                     Syslog ''Emergency exit'']\<rparr>)"
proof (cases "login c")
  case True
  define st0 where "st0 = \<lparr>recentData = JNull, calls = 0, trace = startup_events\<rparr>"
  define wait where "wait = (case w of None \<Rightarrow> UPDATE_INTERVAL | Some x \<Rightarrow> x)"
  have m: "main c w clock n = poll_loop (getRecentData c) wait clock 0 n st0"
    using True by (simp add: main_def st0_def wait_def startup_events_def)
  obtain es where "trace (state_of (main c w clock n)) = trace st0 @ es" "CallLogin \<notin> set es"
    unfolding m using poll_loop_no_login by blast
  then have "trace (state_of (main c w clock n)) = startup_events @ es" "CallLogin \<notin> set es"
    by (simp_all add: st0_def)
  moreover have "length startup_events = 4" by (simp add: startup_events_def)
  ultimately show ?thesis using True by simp
next
  case False
  then have "main c w clock n =
          Exited \<lparr>recentData = JNull, calls = 0,
                  trace = startup_events @
                    [Print (login_error_text c), Syslog (login_error_text c),
                     Syslog ''Emergency exit'']\<rparr>"
    by (simp add: main_def startup_events_def emit_def)
  moreover have "length startup_events = 4" by (simp add: startup_events_def)
  ultimately show ?thesis using False by (simp add: login_error_text_def)
qed

theorem C8_login_failure_witness:
  "\<not> login refusing_client
   \<and> main refusing_client None (\<lambda>j. 0) 3 =
       Exited \<lparr>recentData = JNull, calls = 0,
               trace = startup_events @
                 [Print ''Client login error! Response code: 401 Error message: Unauthorized'',
                  Syslog ''Client login error! Response code: 401 Error message: Unauthorized'',
                  Syslog ''Emergency exit'']\<rparr>"
proof -
  have "str_int 401 = ''401''" by code_simp
  then show ?thesis
    using C8_login_failure [of refusing_client None "\<lambda>j. 0" 3]
    by (simp add: refusing_client_def)
qed

section \<open>Properties of float arithmetic\<close>

lemma rint_lower: "\<lfloor>y\<rfloor> \<le> rint y"
  by (simp add: rint_def Let_def)

lemma rint_upper: "rint y \<le> \<lceil>y\<rceil>"
proof -
  have "\<lfloor>y\<rfloor> + 1 \<le> \<lceil>y\<rceil>" if "of_int \<lfloor>y\<rfloor> < y"
  proof -
    from that have "of_int \<lfloor>y\<rfloor> < (of_int \<lceil>y\<rceil> :: rat)"
      using le_of_int_ceiling [of y] by linarith
    then show ?thesis by simp
  qed
  moreover have "\<lfloor>y\<rfloor> \<le> \<lceil>y\<rceil>" by (rule floor_le_ceiling)
  ultimately show ?thesis
    by (auto simp: rint_def Let_def)
qed

lemma rint_ge:
  assumes "of_int M \<le> y"
  shows "M \<le> rint y"
proof -
  from assms have "M \<le> \<lfloor>y\<rfloor>" by (simp add: le_floor_iff)
  also have "\<dots> \<le> rint y" by (rule rint_lower)
  finally show ?thesis .
qed

lemma rint_le:
  assumes "y \<le> of_int M"
  shows "rint y \<le> M"
proof -
  have "rint y \<le> \<lceil>y\<rceil>" by (rule rint_upper)
  also from assms have "\<dots> \<le> M" by (simp add: ceiling_le_iff)
  finally show ?thesis .
qed

lemma rint_of_int [simp]: "rint (of_int k) = k"
  by (simp add: rint_def)

lemma expo_less:
  assumes "x \<noteq> 0" and "\<bar>x\<bar> < 2 powi n"
  shows "expo x < n"
proof -
  obtain a b where q: "quotient_of \<bar>x\<bar> = (a, b)" by (cases "quotient_of \<bar>x\<bar>")
  then have b: "0 < b" and x: "\<bar>x\<bar> = of_int a / of_int b"
    by (simp_all add: quotient_of_denom_pos quotient_of_div)
  from assms(1) have "0 < \<bar>x\<bar>" by simp
  with x b have a: "0 < a" by (simp add: zero_less_divide_iff)
  define d where "d = bitlen a - bitlen b"
  have e: "expo x = (if 2 powi d \<le> \<bar>x\<bar> then d else d - 1)"
    by (simp add: expo_def q d_def Let_def)
  have low: "(2::rat) powi (d - 1) < \<bar>x\<bar>"
  proof -
    from bitlen_bounds [OF a] have "2 ^ nat (bitlen a - 1) \<le> a" by simp
    then have "(of_int (2 ^ nat (bitlen a - 1)) :: rat) \<le> of_int a" by (rule of_int_le_iff [THEN iffD2])
    then have 1: "(2::rat) ^ nat (bitlen a - 1) \<le> of_int a" by simp
    from bitlen_bounds [OF b] have "b < 2 ^ nat (bitlen b)" by simp
    then have "(of_int b :: rat) < of_int (2 ^ nat (bitlen b))" by (rule of_int_less_iff [THEN iffD2])
    then have 2: "(of_int b :: rat) < 2 ^ nat (bitlen b)" by simp
    have la: "1 \<le> bitlen a" using a by (simp add: bitlen_alt_def)
    have lb: "1 \<le> bitlen b" using b by (simp add: bitlen_alt_def)
    have "d - 1 = (bitlen a - 1) - bitlen b" by (simp add: d_def)
    then have "(2::rat) powi (d - 1) = 2 powi ((bitlen a - 1) - bitlen b)"
      by (simp only:)
    also have "\<dots> = 2 powi (bitlen a - 1) / 2 powi bitlen b"
      by (rule power_int_diff) simp
    also have "\<dots> = 2 ^ nat (bitlen a - 1) / 2 ^ nat (bitlen b)"
      using la lb by (simp only: power_int_nonneg_exp) 
    finally have "(2::rat) powi (d - 1) = 2 ^ nat (bitlen a - 1) / 2 ^ nat (bitlen b)" .
    also have "\<dots> < of_int a / of_int b"
    proof -
      have "(2::rat) ^ nat (bitlen a - 1) / 2 ^ nat (bitlen b) < 2 ^ nat (bitlen a - 1) / of_int b"
        using 2 b by (simp add: divide_strict_left_mono)
      also have "\<dots> \<le> of_int a / of_int b"
        using 1 b by (simp add: divide_right_mono)
      finally show ?thesis .
    qed
    finally show ?thesis by (simp add: x)
  qed
  show ?thesis
  proof (rule ccontr)
    assume "\<not> expo x < n"
    then have n: "n \<le> expo x" by simp
    have "(2::rat) powi expo x \<le> \<bar>x\<bar>"
      using e low by (auto split: if_splits)
    moreover have "(2::rat) powi n \<le> 2 powi expo x"
      using n by (simp add: power_int_increasing)
    ultimately show False using assms(2) by linarith
  qed
qed


lemma scaled_bounds:
  fixes P :: int and x r :: rat
  assumes P: "1000 \<le> P"
    and r_def: "r = of_int (rint (x * of_int P)) / of_int P"
  shows "of_int M \<le> x \<Longrightarrow> of_int M \<le> r"
    and "x \<le> of_int M \<Longrightarrow> r \<le> of_int M"
    and "x \<le> of_int M - 1 / 1000 \<Longrightarrow> r < of_int M"
    and "of_int M + 1 / 1000 \<le> x \<Longrightarrow> of_int M < r"
proof -
  from P have pos: "(0::rat) < of_int P" by simp
  from P have big: "(1::rat) \<le> of_int P / 1000" by simp
  { assume "of_int M \<le> x"
    then have "of_int (M * P) \<le> x * of_int P" using pos by simp
    then have "M * P \<le> rint (x * of_int P)" by (rule rint_ge)
    then have "(of_int (M * P) :: rat) \<le> of_int (rint (x * of_int P))" by (simp only: of_int_le_iff)
    then show "of_int M \<le> r" using pos by (simp add: r_def pos_le_divide_eq) }
  { assume "x \<le> of_int M"
    then have "x * of_int P \<le> of_int (M * P)" using pos by simp
    then have "rint (x * of_int P) \<le> M * P" by (rule rint_le)
    then have "(of_int (rint (x * of_int P)) :: rat) \<le> of_int (M * P)" by (simp only: of_int_le_iff)
    then show "r \<le> of_int M" using pos by (simp add: r_def pos_divide_le_eq) }
  { assume "x \<le> of_int M - 1 / 1000"
    then have "x * of_int P \<le> (of_int M - 1 / 1000) * of_int P"
      using pos by (simp only: mult_le_cancel_right_pos)
    also have "\<dots> = of_int (M * P) - (of_int P :: rat) / 1000" by (simp add: algebra_simps)
    also have "\<dots> \<le> of_int (M * P - 1)" using big by simp
    finally have "rint (x * of_int P) \<le> M * P - 1" by (rule rint_le)
    then have "rint (x * of_int P) < M * P" by simp
    then have "(of_int (rint (x * of_int P)) :: rat) < of_int (M * P)" by (simp only: of_int_less_iff)
    then show "r < of_int M" using pos by (simp add: r_def pos_divide_less_eq) }
  { assume "of_int M + 1 / 1000 \<le> x"
    then have "(of_int M + 1 / 1000) * of_int P \<le> x * of_int P"
      using pos by (simp only: mult_le_cancel_right_pos)
    moreover have "(of_int M + 1 / 1000) * of_int P = of_int (M * P) + (of_int P :: rat) / 1000"
      by (simp add: algebra_simps)
    moreover have "of_int (M * P + 1) \<le> of_int (M * P) + (of_int P :: rat) / 1000" using big by simp
    ultimately have "of_int (M * P + 1) \<le> x * of_int P" by linarith
    then have "M * P + 1 \<le> rint (x * of_int P)" by (rule rint_ge)
    then have "M * P < rint (x * of_int P)" by simp
    then have "(of_int (M * P) :: rat) < of_int (rint (x * of_int P))" by (simp only: of_int_less_iff)
    then show "of_int M < r" using pos by (simp add: r_def pos_less_divide_eq) }
qed

lemma ulp_inverse:
  assumes "e \<le> 52"
  shows "(2::rat) powi (e - 52) = 1 / of_int (2 ^ nat (52 - e))"
proof -
  have "(2::rat) powi (e - 52) = 2 powi (- (52 - e))" by simp
  also have "\<dots> = 1 / 2 powi (52 - e)" by (rule power_int_minus_divide)
  also have "\<dots> = 1 / 2 ^ nat (52 - e)" using assms by (simp add: power_int_nonneg_exp)
  finally show ?thesis by simp
qed

lemma round_double_scaled:
  fixes x r :: rat
  assumes "max (expo x) (- 1022) \<le> 52"
    and "P = (2::int) ^ nat (52 - max (expo x) (- 1022))"
    and "r = of_int (rint (x * of_int P)) / of_int P"
  shows "round_double x = (if 2 ^ 1024 \<le> \<bar>r\<bar> then None else Some r)"
  unfolding round_double_def Let_def ulp_inverse [OF assms(1)] assms(2,3) by simp


lemma expo_zero: "expo 0 = - 2"
  by code_simp

lemma round_double_small:
  fixes x :: rat
  assumes "\<bar>x\<bar> < 2 ^ 43" and P_def: "P = (2::int) ^ nat (52 - max (expo x) (- 1022))"
  shows "1000 \<le> P"
    and "round_double x = Some (of_int (rint (x * of_int P)) / of_int P)"
proof -
  define e where "e = max (expo x) (- 1022)"
  have "expo x \<le> 42"
  proof (cases "x = 0")
    case True
    then show ?thesis by (simp add: expo_zero)
  next
    case False
    from assms(1) have "\<bar>x\<bar> < 2 powi 43" by simp
    with False have "expo x < 43" by (rule expo_less)
    then show ?thesis by simp
  qed
  then have e: "e \<le> 42" by (simp add: e_def)
  define r :: rat where "r = of_int (rint (x * of_int P)) / of_int P"
  have "(2::int) ^ 10 \<le> 2 ^ nat (52 - e)"
    using e by (intro power_increasing) simp_all
  then show P: "1000 \<le> P" by (simp add: P_def e_def)
  note b = scaled_bounds [OF P r_def]
  define B :: int where "B = 2 ^ 43"
  have "of_int (- B) \<le> x" and "x \<le> of_int B"
    using assms(1) by (simp_all add: abs_less_iff B_def)
  have "of_int (- B) \<le> r" using \<open>of_int (- B) \<le> x\<close> by (rule b(1))
  moreover have "r \<le> of_int B" using \<open>x \<le> of_int B\<close> by (rule b(2))
  ultimately have "\<bar>r\<bar> \<le> of_int B" by (simp add: abs_le_iff)
  moreover have "(of_int B :: rat) < 2 ^ 1024"
  proof -
    have "(2::rat) ^ 43 < 2 ^ 1024" by (rule power_strict_increasing) simp_all
    then show ?thesis by (simp add: B_def)
  qed
  ultimately have small: "\<not> 2 ^ 1024 \<le> \<bar>r\<bar>" by linarith
  have "max (expo x) (- 1022) \<le> 52" using e by (simp add: e_def)
  then have "round_double x = (if 2 ^ 1024 \<le> \<bar>r\<bar> then None else Some r)"
    using P_def r_def by (rule round_double_scaled)
  with small show "round_double x = Some (of_int (rint (x * of_int P)) / of_int P)"
    by (simp add: r_def)
qed

lemma div1000_truncates:
  assumes "\<bar>T\<bar> < 1000 * 2 ^ 43"
  shows "\<exists>q. round_double (of_int T / 1000) = Some q \<and> py_int q = sgn T * (\<bar>T\<bar> div 1000)"
proof -
  define x :: rat where "x = of_int T / 1000"
  define P :: int where "P = 2 ^ nat (52 - max (expo x) (- 1022))"
  define q :: rat where "q = of_int (rint (x * of_int P)) / of_int P"
  have "\<bar>x\<bar> < 2 ^ 43"
  proof -
    from assms have "(of_int \<bar>T\<bar> :: rat) < of_int (1000 * 2 ^ 43)" by (simp only: of_int_less_iff)
    then show ?thesis by (simp add: x_def)
  qed
  note rd = round_double_small [OF this P_def]
  note b = scaled_bounds [OF rd(1) q_def]
  have q: "round_double x = Some q" using rd(2) by (simp add: q_def)
  define k where "k = \<bar>T\<bar> div 1000"
  have k: "1000 * k \<le> \<bar>T\<bar>" "\<bar>T\<bar> \<le> 1000 * k + 999" "0 \<le> k"
  proof -
    have "\<bar>T\<bar> = 1000 * k + \<bar>T\<bar> mod 1000"
      unfolding k_def by (simp add: mult_div_mod_eq)
    moreover have "0 \<le> \<bar>T\<bar> mod 1000" and "\<bar>T\<bar> mod 1000 < 1000" by simp_all
    ultimately show "1000 * k \<le> \<bar>T\<bar>" and "\<bar>T\<bar> \<le> 1000 * k + 999" by linarith+
    show "0 \<le> k" unfolding k_def by (simp add: pos_imp_zdiv_nonneg_iff)
  qed
  have "py_int q = sgn T * k"
  proof (cases "0 \<le> T")
    case True
    with k have "1000 * k \<le> T" "T \<le> 1000 * k + 999" by simp_all
    then have "(of_int (1000 * k) :: rat) \<le> of_int T" "(of_int T :: rat) \<le> of_int (1000 * k + 999)"
      by (simp_all only: of_int_le_iff)
    then have 1: "of_int k \<le> x" and 2: "x \<le> of_int (k + 1) - 1 / 1000"
      by (simp_all add: x_def)
    have lo: "of_int k \<le> q" using 1 by (rule b(1))
    have hi: "q < of_int (k + 1)" using 2 by (rule b(3))
    from k(3) have "(0::rat) \<le> of_int k" by simp
    with lo have "\<not> q < 0" by linarith
    moreover have "\<lfloor>q\<rfloor> = k" using lo hi by (intro floor_unique) simp_all
    ultimately have "py_int q = k" by (simp add: py_int_def)
    moreover have "sgn T * k = k"
    proof (cases "T = 0")
      case True
      then show ?thesis by (simp add: k_def)
    next
      case False
      with \<open>0 \<le> T\<close> show ?thesis by simp
    qed
    ultimately show ?thesis by simp
  next
    case False
    with k have "1000 * k \<le> - T" "- T \<le> 1000 * k + 999" by simp_all
    then have "T \<le> - (1000 * k)" "- (1000 * k + 999) \<le> T" by simp_all
    then have "(of_int T :: rat) \<le> of_int (- (1000 * k))" "(of_int (- (1000 * k + 999)) :: rat) \<le> of_int T"
      by (simp_all only: of_int_le_iff)
    then have 1: "x \<le> of_int (- k)" and 2: "of_int (- k - 1) + 1 / 1000 \<le> x"
      by (simp_all add: x_def)
    have up: "q \<le> of_int (- k)" using 1 by (rule b(2))
    have low: "of_int (- k - 1) < q" using 2 by (rule b(4))
    have "py_int q = - k"
    proof (cases "q < 0")
      case True
      have "\<lceil>q\<rceil> = - k"
        using up low by (intro ceiling_unique) simp_all
      with True show ?thesis by (simp add: py_int_def)
    next
      case F: False
      from k(3) have "(of_int (- k) :: rat) \<le> 0" by simp
      with up F have q0: "q = 0" by linarith
      with up have "(0::rat) \<le> of_int (- k)" by simp
      then have "0 \<le> - k" by (simp only: of_int_0_le_iff)
      with k(3) have "k = 0" by simp
      with q0 show ?thesis by (simp add: py_int_def)
    qed
    moreover from False have "sgn T = - 1" by simp
    ultimately show ?thesis by simp
  qed
  with q show ?thesis by (simp add: k_def x_def)
qed


lemma round_double_zero: "round_double 0 = Some 0"
proof -
  have "rint 0 = 0" by (simp add: rint_def)
  then show ?thesis by (simp add: round_double_def Let_def)
qed

lemma dyadic_is_double:
  assumes "\<bar>k\<bar> < 2 ^ 53" and "j \<le> 1074"
  shows "is_double (of_int k / 2 ^ j)"
proof (cases "k = 0")
  case True
  then show ?thesis by (simp add: is_double_def round_double_zero)
next
  case False
  define x :: rat where "x = of_int k / 2 ^ j"
  define e where "e = max (expo x) (- 1022)"
  define n where "n = nat (52 - e)"
  define P :: int where "P = 2 ^ n"
  define r :: rat where "r = of_int (rint (x * of_int P)) / of_int P"
  from assms(1) have "(of_int \<bar>k\<bar> :: rat) < of_int (2 ^ 53)" by (simp only: of_int_less_iff)
  then have k53: "\<bar>of_int k :: rat\<bar> < 2 ^ 53" by simp
  have absx: "\<bar>x\<bar> = \<bar>of_int k\<bar> / 2 ^ j" by (simp add: x_def)
  have "\<bar>x\<bar> < 2 ^ 53 / 2 ^ j"
    unfolding absx using k53 by (simp add: divide_strict_right_mono)
  also have "(2::rat) ^ 53 / 2 ^ j = 2 powi 53 / 2 powi (int j)" by simp
  also have "\<dots> = 2 powi (53 - int j)" by (rule power_int_diff [symmetric]) simp
  finally have "\<bar>x\<bar> < 2 powi (53 - int j)" .
  moreover from False have "x \<noteq> 0" by (simp add: x_def)
  ultimately have "expo x < 53 - int j" by (intro expo_less)
  with assms(2) have e: "e \<le> 52 - int j" by (simp add: e_def)
  then have "e \<le> 52" by simp
  then have rd: "round_double x = (if 2 ^ 1024 \<le> \<bar>r\<bar> then None else Some r)"
    unfolding e_def using P_def [unfolded n_def e_def] r_def by (rule round_double_scaled)
  from e have jn: "j \<le> n" by (simp add: n_def)
  then have P: "P = 2 ^ j * 2 ^ (n - j)" by (simp add: P_def flip: power_add)
  have "x * of_int P = of_int (k * 2 ^ (n - j))" by (simp add: x_def P)
  then have "rint (x * of_int P) = k * 2 ^ (n - j)" by (simp only: rint_of_int)
  then have rx: "r = x" by (simp add: r_def x_def P)
  have "\<bar>x\<bar> \<le> \<bar>of_int k\<bar>"
  proof -
    have "(1::rat) \<le> 2 ^ j" by simp
    then have "\<bar>of_int k :: rat\<bar> / 2 ^ j \<le> \<bar>of_int k\<bar> / 1"
      by (intro divide_left_mono) simp_all
    then show ?thesis by (simp add: absx)
  qed
  moreover have "(2::rat) ^ 53 < 2 ^ 1024" by (rule power_strict_increasing) simp_all
  ultimately have "\<not> 2 ^ 1024 \<le> \<bar>r\<bar>" using k53 rx by linarith
  with rd rx show ?thesis by (simp add: is_double_def x_def)
qed

lemma int_is_double: "\<bar>N\<bar> < 2 ^ 53 \<Longrightarrow> is_double (of_int N)"
  using dyadic_is_double [of N 0] by simp

lemma half_is_double: "is_double (- (1 / 2))"
  using dyadic_is_double [of "- 1" 1] by simp

section \<open>Properties of the scheduling\<close>

lemma py_int_negative: "py_int v < 0 \<longleftrightarrow> v \<le> - 1"
proof (cases "v < 0")
  case True
  then show ?thesis by (simp add: py_int_def ceiling_less_iff)
next
  case False
  then show ?thesis by (simp add: py_int_def)
qed

lemma py_int_fraction: "- 1 < v \<Longrightarrow> v < 0 \<Longrightarrow> py_int v = 0"
proof -
  assume a: "- 1 < v" "v < 0"
  then have "\<lceil>v\<rceil> \<le> 0" and "- 1 < \<lceil>v\<rceil>"
    by (simp_all add: ceiling_le_iff less_ceiling_iff)
  then have "\<lceil>v\<rceil> = 0" by linarith
  with a show ?thesis by (simp add: py_int_def)
qed

lemma py_int_delay:
  "(if py_int v < 0 then 120 else py_int v)
     = (if v \<le> - 1 then 120 else if v < 0 then 0 else \<lfloor>v\<rfloor>)"
proof (cases "v \<le> - 1")
  case True
  then show ?thesis by (simp add: py_int_negative)
next
  case False
  then have n: "\<not> py_int v < 0" by (simp add: py_int_negative)
  show ?thesis
  proof (cases "v < 0")
    case True
    with False have "py_int v = 0" by (intro py_int_fraction) simp_all
    with False True show ?thesis by simp
  next
    case False
    then show ?thesis using n by (simp add: py_int_def)
  qed
qed

lemma tmoSeconds_whole_ms:
  assumes "map_of d ''lastConduitUpdateServerTime'' = Some t"
    and "t = JInt T \<or> t = JFloat (of_int T)"
    and "\<bar>T\<bar> < 1000 * 2 ^ 43"
    and "\<bar>sgn T * (\<bar>T\<bar> div 1000) + I\<bar> < 2 ^ 53"
    and "is_double (of_int (sgn T * (\<bar>T\<bar> div 1000) + I) - now)"
  shows "tmoSeconds (JObj d) I now =
           Inr (if of_int (sgn T * (\<bar>T\<bar> div 1000) + I) - now \<le> - 1 then 120
                else if of_int (sgn T * (\<bar>T\<bar> div 1000) + I) - now < 0 then 0
                else \<lfloor>of_int (sgn T * (\<bar>T\<bar> div 1000) + I) - now\<rfloor>)"
proof -
  define N where "N = sgn T * (\<bar>T\<bar> div 1000) + I"
  define v :: rat where "v = of_int N - now"
  from div1000_truncates [OF assms(3)] obtain q
    where q: "round_double (of_int T / 1000) = Some q"
      and pq: "py_int q = sgn T * (\<bar>T\<bar> div 1000)"
    by blast
  from assms(2) q have dv: "py_div1000 t = Inr q"
    by (auto simp: true_divide_def)
  have nx: "round_double (of_int N) = Some (of_int N)"
    using int_is_double [of N] assms(4) by (simp add: N_def is_double_def)
  have df: "round_double (of_int N - now) = Some v"
    using assms(5) by (simp add: N_def v_def is_double_def)
  have "tmoSeconds (JObj d) I now = Inr (if py_int v < 0 then 120 else py_int v)"
    using assms(1) dv nx df
    by (simp add: tmoSeconds_def pq N_def [symmetric] RETRY_INTERVAL_def Let_def)
  then show ?thesis
    unfolding py_int_delay by (simp add: v_def N_def)
qed

lemma example_timestamp:
  "map_of [(''sgs'', JArr []), (''markers'', JArr []),
           (''lastConduitUpdateServerTime'', JInt 1000000)] ''lastConduitUpdateServerTime''
     = Some (JInt 1000000)"
  by simp

lemma example_tmo: "tmoSeconds example_snapshot 300 1000300 = Inr 120"
proof -
  have "is_double (of_int (- 999000))" by (rule int_is_double) simp
  then have "is_double (of_int (sgn 1000000 * (\<bar>1000000\<bar> div 1000) + 300) - 1000300)"
    by simp
  with tmoSeconds_whole_ms [where T = 1000000 and I = 300 and now = "1000300", OF example_timestamp]
  show ?thesis by (simp add: example_snapshot_def)
qed

lemma example_tmo_half: "tmoSeconds example_snapshot 300 (2601 / 2) = Inr 0"
proof -
  have "is_double (of_int (sgn 1000000 * (\<bar>1000000\<bar> div 1000) + 300) - 2601 / 2)"
    using half_is_double by simp
  with tmoSeconds_whole_ms [where T = 1000000 and I = 300 and now = "2601 / 2", OF example_timestamp]
  show ?thesis by (simp add: example_snapshot_def)
qed

lemma example_tmo_whole: "tmoSeconds example_snapshot 300 1000 = Inr 300"
proof -
  have "is_double (of_int 300)" by (rule int_is_double) simp
  then have "is_double (of_int (sgn 1000000 * (\<bar>1000000\<bar> div 1000) + 300) - 1000)"
    by simp
  with tmoSeconds_whole_ms [where T = 1000000 and I = 300 and now = "1000", OF example_timestamp]
  show ?thesis by (simp add: example_snapshot_def)
qed

text \<open>
  Claim C2, as amended. Take a snapshot whose \<^verbatim>\<open>lastConduitUpdateServerTime\<close> is a whole
  number \<open>T\<close> of milliseconds, an \<^verbatim>\<open>int\<close> or a \<^verbatim>\<open>float\<close>, below \<open>1000 * 2 ^ 43\<close> in
  magnitude, an interval \<open>I\<close> and a clock value \<open>now\<close> (seconds, with a fraction). Let
  \<open>nextReading\<close> be \<open>T/1000\<close> truncated towards zero (which is \<open>\<lfloor>T/1000\<rfloor>\<close> for \<open>T \<ge> 0\<close>)
  plus \<open>I\<close>, below \<open>2 ^ 53\<close> in magnitude, and let \<open>v = nextReading - now\<close> be a double, so
  that the float subtraction is exact. The delay is \<open>v\<close> truncated towards zero, and the
  retry interval 120 replaces it only when the truncated value is negative: it is 120
  for \<open>v \<le> -1\<close>, 0 for \<open>-1 < v < 0\<close> and \<open>\<lfloor>v\<rfloor>\<close> for \<open>v \<ge> 0\<close>, never negative. A cycle whose
  first attempt succeeds with that snapshot sleeps the delay plus 10 seconds. For
  \<open>T = 1000000\<close>, \<open>I = 300\<close>, \<open>now = 1000300\<close> the delay is 120.
\<close>

theorem C2_delay:
  assumes "map_of d ''lastConduitUpdateServerTime'' = Some t"
    and "t = JInt T \<or> t = JFloat (of_int T)"
    and "\<bar>T\<bar> < 1000 * 2 ^ 43"
    and "\<bar>sgn T * (\<bar>T\<bar> div 1000) + I\<bar> < 2 ^ 53"
    and "is_double (of_int (sgn T * (\<bar>T\<bar> div 1000) + I) - now)"
  shows "tmoSeconds (JObj d) I now =
           Inr (if of_int (sgn T * (\<bar>T\<bar> div 1000) + I) - now \<le> - 1 then 120
                else if of_int (sgn T * (\<bar>T\<bar> div 1000) + I) - now < 0 then 0
                else \<lfloor>of_int (sgn T * (\<bar>T\<bar> div 1000) + I) - now\<rfloor>)
       \<and> (0 \<le> T \<longrightarrow> sgn T * (\<bar>T\<bar> div 1000) = T div 1000)
       \<and> (get (calls st) = Returned (JObj d) (Some 200) True m \<longrightarrow>
            (\<exists>tmo. tmoSeconds (JObj d) I now = Inr tmo
               \<and> last (trace (snd (poll_cycle get I now i st))) = Sleep (tmo + 10)))
       \<and> tmoSeconds example_snapshot 300 1000300 = Inr 120"
proof -
  note t = tmoSeconds_whole_ms [OF assms]
  have s: "sgn T * (\<bar>T\<bar> div 1000) = T div 1000" if "0 \<le> T"
  proof (cases "T = 0")
    case True
    then show ?thesis by simp
  next
    case False
    with that show ?thesis by simp
  qed
  have "\<exists>tmo. tmoSeconds (JObj d) I now = Inr tmo
               \<and> last (trace (snd (poll_cycle get I now i st))) = Sleep (tmo + 10)"
    if g: "get (calls st) = Returned (JObj d) (Some 200) True m"
  proof -
    have store: "recentData (snd (poll_cycle get I now i st)) = JObj d"
      unfolding store_poll_cycle store_two_attempts using g by simp
    obtain tmo where tmo: "tmoSeconds (JObj d) I now = Inr tmo" using t by blast
    then have "tmoSeconds (recentData (snd (poll_cycle get I now i st))) I now = Inr tmo"
      by (simp add: store)
    from poll_cycle_sleep(2) [OF this] tmo show ?thesis by blast
  qed
  with t s example_tmo show ?thesis by blast
qed

theorem C2_delay_witness:
  "map_of [(''sgs'', JArr []), (''markers'', JArr []),
           (''lastConduitUpdateServerTime'', JInt 1000000)] ''lastConduitUpdateServerTime''
     = Some (JInt 1000000)
   \<and> \<bar>1000000 :: int\<bar> < 1000 * 2 ^ 43
   \<and> \<bar>sgn 1000000 * (\<bar>1000000\<bar> div 1000) + 300 :: int\<bar> < 2 ^ 53
   \<and> is_double (of_int (sgn 1000000 * (\<bar>1000000\<bar> div 1000) + 300) - 1000)
   \<and> (0::int) \<le> 1000000
   \<and> tmoSeconds example_snapshot 300 1000 = Inr 300
   \<and> healthy_client (calls stale_state) = Returned example_snapshot (Some 200) True None
   \<and> last (trace (snd (poll_cycle healthy_client 300 1000 1 stale_state))) = Sleep 310"
proof -
  have b: "\<bar>1000000 :: int\<bar> < 1000 * 2 ^ 43" by simp
  have c: "\<bar>sgn 1000000 * (\<bar>1000000\<bar> div 1000) + 300 :: int\<bar> < 2 ^ 53" by simp
  have "is_double (of_int 300)" by (rule int_is_double) simp
  then have e: "is_double (of_int (sgn 1000000 * (\<bar>1000000\<bar> div 1000) + 300) - 1000)"
    by simp
  have g: "healthy_client (calls stale_state)
      = Returned (JObj [(''sgs'', JArr []), (''markers'', JArr []),
           (''lastConduitUpdateServerTime'', JInt 1000000)]) (Some 200) True None"
    by (simp add: healthy_client_def example_snapshot_def)
  from C2_delay [where t = "JInt 1000000" and T = 1000000 and I = 300 and now = 1000
      and get = healthy_client and st = stale_state and m = None and i = 1,
      OF example_timestamp _ b c e] g b c e
  show ?thesis
    by (auto simp: example_snapshot_def healthy_client_def)
qed

text \<open>
  Claim C2 as stated fails: for \<open>T = 1000000\<close>, \<open>I = 300\<close> and \<open>now = 1300.5\<close> the value
  \<open>1000 + 300 - now\<close> is negative, yet the delay is 0, not the retry interval.
\<close>

theorem C2_counterexample:
  "tmoSeconds example_snapshot 300 (2601 / 2) = Inr 0
   \<and> (of_int (1000000 div 1000 + 300) - 2601 / 2 :: rat) < 0"
  using example_tmo_half by simp

end
